theory Spec2Isabelle
  imports Complex_Main "HOL-Library.Sublist" "HOL-Library.Multiset"
begin

section \<open>Numbers\<close>

text \<open>
  Every numeric field of the program has the TypeScript type \<open>number\<close>. The embedding keeps
  two kinds apart: values that the program only ever counts or compares for equality
  (\<open>column\<close>, \<open>pitch\<close>, \<open>missedNotes\<close>, \<open>consecutiveHits\<close>) are \<open>int\<close>, and values that it
  divides or scales (\<open>y\<close>, \<open>velocity\<close>, \<open>start\<close>, \<open>end\<close>, \<open>score\<close>, \<open>multiplier\<close>) are \<open>real\<close>.
  Arithmetic on them is exact, and \<open>NaN\<close> and the infinities are not among their values. In
  the random number generator the integers leave the range in which double arithmetic is
  exact within three steps from the seed 0, and a large seed takes the product beyond the
  largest double; there the rounding of a double and its overflow are written out
  (section \<open>util.ts\<close>).
\<close>

definition js_rem :: "int \<Rightarrow> int \<Rightarrow> int" where
  \<comment> \<open>The \<open>%\<close> operator on integers: the remainder of the truncating division, with the
      sign of the dividend. Only used with a divisor that is not zero.\<close>
  "js_rem a b = sgn a * (\<bar>a\<bar> mod \<bar>b\<bar>)"

definition Math_round :: "real \<Rightarrow> real" where
  \<comment> \<open>\<open>Math.round\<close>: the nearest integer, a tie going up.\<close>
  "Math_round x = of_int \<lfloor>x + 1 / 2\<rfloor>"

section \<open>types.ts\<close>

definition TICK_RATE_MS :: real where "TICK_RATE_MS = 16"
definition NOTE_FALL_TIME :: real where "NOTE_FALL_TIME = 1800"
definition HIT_WINDOW :: real where "HIT_WINDOW = 30"
definition HIT_LINE_Y :: real where "HIT_LINE_Y = 350"
definition SCORE_INCREMENT :: real where "SCORE_INCREMENT = 1"
definition SCORE_DECREMENT :: real where "SCORE_DECREMENT = 1"

definition COLORS :: "string list" where
  "COLORS = [''green'', ''red'', ''blue'', ''yellow'']"

datatype Key = KeyH | KeyJ | KeyK | KeyL

fun KEY_BINDINGS :: "Key \<Rightarrow> int" where
  "KEY_BINDINGS KeyH = 0"
| "KEY_BINDINGS KeyJ = 1"
| "KEY_BINDINGS KeyK = 2"
| "KEY_BINDINGS KeyL = 3"

definition NOTE_VELOCITY :: real where
  "NOTE_VELOCITY = HIT_LINE_Y / (NOTE_FALL_TIME / TICK_RATE_MS)"

text \<open>The fields \<open>id\<close> and \<open>end\<close> of a note are \<open>id_n\<close> and \<open>end_n\<close> here, and the field
  \<open>notes\<close> of a state is \<open>notes_s\<close>.\<close>

record Note =
  id_n :: string
  user_played :: bool
  column :: int
  y :: real
  instrumentName :: string
  velocity :: real
  pitch :: int
  start :: real
  end_n :: real
  hit :: bool

record State =
  notes_s :: "Note list"
  score :: real
  missedNotes :: int
  gameEnd :: bool
  multiplier :: real
  consecutiveHits :: int
  shouldPlayRandomNote :: bool

definition initialState :: State where
  "initialState =
     \<lparr>notes_s = [], score = 0, missedNotes = 0, gameEnd = False, multiplier = 1,
      consecutiveHits = 0, shouldPlayRandomNote = False\<rparr>"

text \<open>The classes that implement the interface \<open>Action\<close>, with their constructor arguments.\<close>

datatype Action = Tick | AddNotes Note | KeyPress Key | PlayRandomNote

section \<open>state.ts\<close>

definition PlayRandomNote_apply :: "State \<Rightarrow> State" where
  "PlayRandomNote_apply s = s"

definition AddNotes_apply :: "Note \<Rightarrow> State \<Rightarrow> State" where
  "AddNotes_apply note s =
     (if id_n note = ''gameEndNote'' then s\<lparr>gameEnd := True\<rparr>
      else s\<lparr>notes_s := notes_s s @ [note]\<rparr>)"

subsection \<open>KeyPress\<close>

definition isNoteHittable :: "Key \<Rightarrow> Note \<Rightarrow> bool" where
  "isNoteHittable key note \<longleftrightarrow>
     column note = KEY_BINDINGS key \<and> \<bar>y note - HIT_LINE_Y\<bar> \<le> HIT_WINDOW \<and> \<not> hit note"

definition updateNote :: "Key \<Rightarrow> Note \<Rightarrow> Note" where
  "updateNote key note =
     (if isNoteHittable key note then note\<lparr>y := HIT_LINE_Y + NOTE_VELOCITY, hit := True\<rparr>
      else note)"

definition calculateScore :: "State \<Rightarrow> nat \<Rightarrow> real" where
  "calculateScore s notesHit =
     (let baseScore =
        (if notesHit = 0 then max 0 (score s - SCORE_DECREMENT)
         else score s + real notesHit * multiplier s * SCORE_INCREMENT)
      in Math_round baseScore)"

definition calculateMultiplier :: "int \<Rightarrow> real \<Rightarrow> real" where
  "calculateMultiplier consecutiveHits' currentMultiplier =
     (if js_rem consecutiveHits' 10 = 0 then currentMultiplier + 2 / 10
      else currentMultiplier)"

definition KeyPress_apply :: "Key \<Rightarrow> State \<Rightarrow> State" where
  "KeyPress_apply key s =
     (let notesHit = length (filter (isNoteHittable key) (notes_s s));
          updatedNotes = map (updateNote key) (notes_s s);
          newConsecutiveHits = (if notesHit > 0 then consecutiveHits s + 1 else 0)
      in s\<lparr>notes_s := updatedNotes,
            score := calculateScore s notesHit,
            shouldPlayRandomNote := (notesHit = 0),
            consecutiveHits := newConsecutiveHits,
            multiplier :=
              (if notesHit > 0 then calculateMultiplier newConsecutiveHits (multiplier s)
               else 1)\<rparr>)"

subsection \<open>Tick\<close>

definition isMissedNote :: "Note \<Rightarrow> bool" where
  "isMissedNote note \<longleftrightarrow> y note > HIT_LINE_Y \<and> \<not> hit note"

definition updateNotePosition :: "Note \<Rightarrow> Note" where
  "updateNotePosition note = note\<lparr>y := y note + NOTE_VELOCITY\<rparr>"

definition isNoteInPlayArea :: "Note \<Rightarrow> bool" where
  "isNoteInPlayArea note \<longleftrightarrow> y note \<le> HIT_LINE_Y + NOTE_VELOCITY"

text \<open>
  \<open>updateGameStats\<close> returns the three fields it picks, in the order
  \<open>consecutiveHits\<close>, \<open>multiplier\<close>, \<open>missedNotes\<close>.
\<close>

definition updateGameStats :: "State \<Rightarrow> nat \<Rightarrow> int \<times> real \<times> int" where
  "updateGameStats s missedCount =
     (if missedCount > 0 then 0 else consecutiveHits s,
      if missedCount > 0 then 1 else multiplier s,
      missedNotes s + int missedCount)"

definition Tick_apply :: "State \<Rightarrow> State" where
  "Tick_apply s =
     (let missedNotesCount = length (filter isMissedNote (notes_s s));
          updatedNotes = filter isNoteInPlayArea (map updateNotePosition (notes_s s))
      in case updateGameStats s missedNotesCount of
           (ch, mu, mi) \<Rightarrow>
             s\<lparr>notes_s := updatedNotes,
               consecutiveHits := ch, multiplier := mu, missedNotes := mi,
               shouldPlayRandomNote := False\<rparr>)"

subsection \<open>The reducer\<close>

fun apply_action :: "Action \<Rightarrow> State \<Rightarrow> State" where
  "apply_action Tick s = Tick_apply s"
| "apply_action (AddNotes note) s = AddNotes_apply note s"
| "apply_action (KeyPress key) s = KeyPress_apply key s"
| "apply_action PlayRandomNote s = PlayRandomNote_apply s"

definition reduceState :: "State \<Rightarrow> Action \<Rightarrow> State" where
  "reduceState s action = apply_action action s"

section \<open>util.ts\<close>

text \<open>
  \<open>RNG.hash\<close> multiplies a seed by a 31-bit constant, so from a seed of 23 bits on the
  product can have more than 53 bits, and the double that holds it is rounded. \<open>nearest\<close> is
  that rounding on integers: to 53 significant bits, to the nearest, a tie to the even
  significand. A result whose rounded value reaches \<open>2^1024\<close> is an infinity
  (\<open>to_double\<close>), and \<open>hash\<close> then returns \<open>NaN\<close>. A seed is meant to be a double itself.
  The remainder \<open>%\<close> of two finite doubles is exact. \<open>scale\<close> is the exact quotient of a
  finite argument; the double that the program returns is this value rounded, and
  rounding to the nearest double is monotone and leaves \<open>-1\<close> and \<open>1\<close> as they are.
\<close>

function ulp :: "int \<Rightarrow> int" where
  \<comment> \<open>The distance between neighbouring doubles at the magnitude \<open>a\<close> (for \<open>0 \<le> a\<close>): 1
      below \<open>2^53\<close>, and twice as much with every further bit.\<close>
  "ulp a = (if a < 2 ^ 53 then 1 else 2 * ulp (a div 2))"
  by pat_completeness auto
termination
  by (relation "measure nat") auto

declare ulp.simps [simp del]

definition round_half_even :: "int \<Rightarrow> int \<Rightarrow> int" where
  \<comment> \<open>\<open>a / q\<close> for \<open>0 \<le> a\<close> and \<open>0 < q\<close>, rounded to the nearest integer, a tie to the even one.\<close>
  "round_half_even a q =
     (let d = a div q; r = a mod q
      in if 2 * r < q then d
         else if 2 * r > q then d + 1
         else if even d then d else d + 1)"

definition nearest :: "int \<Rightarrow> int" where
  \<comment> \<open>Rounding to 53 significant bits, the exponent not bounded.\<close>
  "nearest x = (let a = \<bar>x\<bar>; q = ulp a in sgn x * (round_half_even a q * q))"

definition to_double :: "int \<Rightarrow> int option" where
  \<comment> \<open>The double of an integer result; \<open>None\<close> is \<open>Infinity\<close> or \<open>-Infinity\<close>: the rounded
      value does not fit below \<open>2^1024\<close>.\<close>
  "to_double x = (let r = nearest x in if \<bar>r\<bar> < 2 ^ 1024 then Some r else None)"

definition RNG_m :: int where "RNG_m = 0x80000000"
definition RNG_a :: int where "RNG_a = 1103515245"
definition RNG_c :: int where "RNG_c = 12345"

definition hash :: "int \<Rightarrow> int option" where
  \<comment> \<open>\<open>None\<close> is \<open>NaN\<close>: an infinite product stays infinite in the sum, and the remainder
      of an infinity is \<open>NaN\<close>.\<close>
  "hash seed =
     (case to_double (RNG_a * seed) of
        None \<Rightarrow> None
      | Some p \<Rightarrow>
          (case to_double (p + RNG_c) of
             None \<Rightarrow> None
           | Some s \<Rightarrow> Some (js_rem s RNG_m)))"

definition scale :: "int \<Rightarrow> real" where
  "scale h = (2 * real_of_int h) / (real_of_int RNG_m - 1) - 1"

section \<open>observable.ts\<close>

text \<open>
  An \<open>Observable\<close> is modelled by what a subscriber receives: the list of its emissions in
  the order they arrive, each with the time in milliseconds since the subscription.
\<close>

type_synonym 'a Observable = "(real \<times> 'a) list"

fun scan :: "('b \<Rightarrow> 'a \<Rightarrow> 'b) \<Rightarrow> 'b \<Rightarrow> 'a list \<Rightarrow> 'b list" where
  \<comment> \<open>The operator \<open>scan\<close> on the values of a stream: every accumulated value, the seed
      itself not among them.\<close>
  "scan f acc [] = []"
| "scan f acc (x # xs) = f acc x # scan f (f acc x) xs"

definition createRngStream :: "'a list \<Rightarrow> int \<Rightarrow> real option list" where
  \<comment> \<open>\<open>createRngStreamFromSource(source$)(seed)\<close>, on the values of \<open>source$\<close>. \<open>None\<close> is
      \<open>NaN\<close>, which \<open>hash\<close> and \<open>scale\<close> hand on.\<close>
  "createRngStream source seed =
     map (map_option scale) (scan (\<lambda>acc _. Option.bind acc hash) (Some seed) source)"

text \<open>
  A line of the chart after \<open>line.split(",")\<close> and the destructuring into six fields, the
  numeric ones after \<open>parseInt\<close> and \<open>parseFloat\<close>. Splitting a line and parsing a number
  are left to the caller of the model (the parameter \<open>parseLine\<close> of \<open>parseCSV\<close>): a line with
  a missing or non-numeric field gives \<open>undefined\<close> or \<open>NaN\<close>, which the model does not have.
\<close>

record Row =
  userPlayed_f :: string
  instrument_f :: string
  velocity_f :: int
  pitch_f :: int
  start_f :: real
  end_f :: real

fun string_of_nat :: "nat \<Rightarrow> string" where
  \<comment> \<open>The template literal of a non-negative integer index: its decimal digits.\<close>
  "string_of_nat n =
     (if n < 10 then [''0123456789'' ! n]
      else string_of_nat (n div 10) @ [''0123456789'' ! (n mod 10)])"

declare string_of_nat.simps [simp del]

definition toLowerCase :: "string \<Rightarrow> string" where
  \<comment> \<open>On the letters A to Z; no other character has one of t, r, u, e as its lower case.\<close>
  "toLowerCase str =
     map (\<lambda>ch. case map_of (zip ''ABCDEFGHIJKLMNOPQRSTUVWXYZ'' ''abcdefghijklmnopqrstuvwxyz'') ch of
                 Some l \<Rightarrow> l
               | None \<Rightarrow> ch)
       str"

definition csvLineToNote :: "Row \<Rightarrow> nat \<Rightarrow> Note" where
  "csvLineToNote row index =
     \<lparr>id_n = string_of_nat index,
      user_played = (toLowerCase (userPlayed_f row) = ''true''),
      column = js_rem (pitch_f row) (int (length COLORS)),
      y = 0,
      instrumentName = instrument_f row,
      velocity = real_of_int (velocity_f row) / 127,
      pitch = pitch_f row,
      start = start_f row,
      end_n = end_f row,
      hit = False\<rparr>"

definition calculateNoteDelay :: "Note \<Rightarrow> real" where
  "calculateNoteDelay note = (start note - NOTE_FALL_TIME / 1000) * 1000"

definition delayed :: "real \<Rightarrow> 'a \<Rightarrow> 'a Observable" where
  \<comment> \<open>\<open>of(x).pipe(delay(d))\<close>: one emission, \<open>d\<close> milliseconds after the subscription, at
      once when \<open>d\<close> is negative.\<close>
  "delayed d x = [(max 0 d, x)]"

definition mergeAll :: "'a Observable list \<Rightarrow> 'a Observable" where
  \<comment> \<open>Inner streams subscribed at the same instant and merged: emissions in the order of
      their time, those of equal time in the order of subscription.\<close>
  "mergeAll obs = sort_key fst (concat obs)"

definition completion :: "'a Observable \<Rightarrow> real" where
  \<comment> \<open>The time at which a stream of finitely many timers completes: its last emission.\<close>
  "completion ob = fold max (map fst ob) 0"

definition concat_obs :: "'a Observable \<Rightarrow> 'a Observable \<Rightarrow> 'a Observable" where
  \<comment> \<open>\<open>concat(a$, b$)\<close>: \<open>b$\<close> is subscribed when \<open>a$\<close> completes.\<close>
  "concat_obs a b = a @ map (\<lambda>(t, x). (completion a + t, x)) b"

definition gameEndNote :: Note where
  \<comment> \<open>The object literal in \<open>createGameEndNote$\<close>.\<close>
  "gameEndNote =
     \<lparr>id_n = ''gameEndNote'', user_played = True, column = 0, y = 0, instrumentName = [],
      velocity = 0, pitch = 0, start = 0, end_n = 0, hit = False\<rparr>"

definition createGameEndNote :: "Note Observable" where
  "createGameEndNote = delayed (NOTE_FALL_TIME + 2000) gameEndNote"

fun split_lines :: "string \<Rightarrow> string list" where
  \<comment> \<open>\<open>csvContents.split("\n")\<close>; the empty string gives one empty line.\<close>
  "split_lines [] = [[]]"
| "split_lines (ch # rest) =
     (if ch = CHR 0x0A then [] # split_lines rest
      else case split_lines rest of l # ls \<Rightarrow> (ch # l) # ls | [] \<Rightarrow> [[ch]])"

definition timed :: "Note list \<Rightarrow> Note Observable" where
  \<comment> \<open>The last operator of \<open>notes$\<close> in \<open>parseCSV\<close>: each note emitted after its own delay,
      all delays counted from the same instant.\<close>
  "timed ns = mergeAll (map (\<lambda>note. delayed (calculateNoteDelay note) note) ns)"

definition chartNotes :: "(string \<Rightarrow> Row) \<Rightarrow> string \<Rightarrow> Note list" where
  \<comment> \<open>The first two operators of \<open>notes$\<close> in \<open>parseCSV\<close>: the header line skipped, each
      other line turned into a note with its index, counted from 0 after the skip.\<close>
  "chartNotes parseLine csvContents =
     map (\<lambda>(index, line). csvLineToNote (parseLine line) index)
       (enumerate 0 (drop 1 (split_lines csvContents)))"

definition parseCSV :: "(string \<Rightarrow> Row) \<Rightarrow> string \<Rightarrow> Note Observable" where
  "parseCSV parseLine csvContents =
     (let notes' = timed (chartNotes parseLine csvContents)
      in concat_obs notes' createGameEndNote)"

section \<open>main.ts\<close>

definition userPlayableNotes :: "Note Observable \<Rightarrow> Action Observable" where
  "userPlayableNotes notes' =
     map (\<lambda>(t, note). (t, AddNotes note)) (filter (\<lambda>(t, n). user_played n) notes')"

definition state_stream :: "Action list \<Rightarrow> State list" where
  \<comment> \<open>\<open>state$\<close>, on the actions in the order in which the merge delivers them.\<close>
  "state_stream actions = scan reduceState initialState actions"

section \<open>Notions of the specification\<close>

definition hittable_count :: "Key \<Rightarrow> State \<Rightarrow> nat" where
  \<comment> \<open>\<open>notesHit\<close>: the number of hittable notes that a key press finds in a state.\<close>
  "hittable_count key s = length (filter (isNoteHittable key) (notes_s s))"

definition missed_count :: "State \<Rightarrow> nat" where
  \<comment> \<open>\<open>missedNotesCount\<close>: the number of notes that a tick counts as missed in a state.\<close>
  "missed_count s = length (filter isMissedNote (notes_s s))"

fun produces_miss :: "Action \<Rightarrow> State \<Rightarrow> bool" where
  \<comment> \<open>A miss is a key press that hits nothing or a tick that counts a missed note.\<close>
  "produces_miss (KeyPress key) s = (hittable_count key s = 0)"
| "produces_miss Tick s = (missed_count s > 0)"
| "produces_miss (AddNotes note) s = False"
| "produces_miss PlayRandomNote s = False"

fun no_miss :: "State \<Rightarrow> Action list \<Rightarrow> bool" where
  \<comment> \<open>No action of the list produces a miss when the list is run from the state.\<close>
  "no_miss s [] = True"
| "no_miss s (a # as) = (\<not> produces_miss a s \<and> no_miss (reduceState s a) as)"

fun is_KeyPress :: "Action \<Rightarrow> bool" where
  "is_KeyPress (KeyPress key) = True"
| "is_KeyPress a = False"

fun is_AddNotes :: "Action \<Rightarrow> bool" where
  "is_AddNotes (AddNotes note) = True"
| "is_AddNotes a = False"

definition presses :: "Action list \<Rightarrow> nat" where
  "presses as = length (filter is_KeyPress as)"

definition state_ok :: "State \<Rightarrow> bool" where
  \<comment> \<open>What every state of a game satisfies: the score is a whole number, not negative, and
      the multiplier is at least 1.\<close>
  "state_ok s \<longleftrightarrow> score s \<in> \<int> \<and> 0 \<le> score s \<and> 1 \<le> multiplier s"

section \<open>Example inputs\<close>

definition example_row :: Row where
  \<comment> \<open>The fields of a chart line \<open>True,piano,127,60,2,3\<close>.\<close>
  "example_row =
     \<lparr>userPlayed_f = ''True'', instrument_f = ''piano'', velocity_f = 127, pitch_f = 60,
      start_f = 2, end_f = 3\<rparr>"

definition example_chart :: string where
  \<comment> \<open>A chart of a header line and one line of data.\<close>
  "example_chart =
     ''user_played,instrument_name,velocity,pitch,start (s),end (s)'' @ [CHR 0x0A]
     @ ''True,piano,127,60,2,3''"

definition note0 :: Note where
  \<comment> \<open>The note of that line as the first line of data.\<close>
  "note0 = csvLineToNote example_row 0"

definition passed_state :: State where
  \<comment> \<open>A combo of twelve with the multiplier at 1.2, and one note just beyond the hit line.\<close>
  "passed_state =
     \<lparr>notes_s = [note0\<lparr>y := 352\<rparr>], score = 14, missedNotes = 2, gameEnd = False,
      multiplier = 12 / 10, consecutiveHits = 12, shouldPlayRandomNote = True\<rparr>"

definition hit_then_tick :: "Action list" where
  \<comment> \<open>A note arrives on the hit line, the key of its column is pressed, a tick follows.\<close>
  "hit_then_tick = [AddNotes (note0\<lparr>y := HIT_LINE_Y\<rparr>), KeyPress KeyH, Tick]"

definition two_hits_then_note :: "Action list" where
  \<comment> \<open>Two notes arrive on the hit line and are hit, one after the other; a third arrives at
      the top of its column.\<close>
  "two_hits_then_note =
     [AddNotes (note0\<lparr>y := HIT_LINE_Y\<rparr>), KeyPress KeyH,
      AddNotes (note0\<lparr>id_n := ''1'', y := HIT_LINE_Y\<rparr>), KeyPress KeyH,
      AddNotes (note0\<lparr>id_n := ''2''\<rparr>)]"

definition three_notes :: State where
  \<comment> \<open>A note already hit, a note of column 0 inside the hit window, a note of column 1.\<close>
  "three_notes =
     \<lparr>notes_s =
        [note0\<lparr>y := HIT_LINE_Y + NOTE_VELOCITY, hit := True\<rparr>,
         note0\<lparr>id_n := ''1'', y := 340\<rparr>,
         note0\<lparr>id_n := ''2'', column := 1, y := 10\<rparr>],
      score = 1, missedNotes = 0, gameEnd = False, multiplier = 1, consecutiveHits = 1,
      shouldPlayRandomNote = False\<rparr>"

definition ten_rounds :: "Action list" where
  \<comment> \<open>Ten times: a note arrives on the hit line, is hit, and a tick follows.\<close>
  "ten_rounds = concat (replicate 10 hit_then_tick)"

section \<open>Rounding\<close>

lemma Math_round_of_int: "Math_round (of_int k) = of_int k"
  unfolding Math_round_def by (simp add: floor_unique)

lemma Math_round_nonneg: "- (1 / 2) \<le> x \<Longrightarrow> 0 \<le> Math_round x"
  unfolding Math_round_def by simp

lemma Math_round_Ints: "Math_round x \<in> \<int>"
  unfolding Math_round_def by simp

section \<open>The fields of a state after each action\<close>

lemma Tick_apply_fields:
  "missedNotes (Tick_apply s) = missedNotes s + int (missed_count s)"
  "consecutiveHits (Tick_apply s) = (if missed_count s > 0 then 0 else consecutiveHits s)"
  "multiplier (Tick_apply s) = (if missed_count s > 0 then 1 else multiplier s)"
  "notes_s (Tick_apply s) = filter isNoteInPlayArea (map updateNotePosition (notes_s s))"
  "score (Tick_apply s) = score s"
  "gameEnd (Tick_apply s) = gameEnd s"
  "shouldPlayRandomNote (Tick_apply s) = False"
  by (simp_all add: Tick_apply_def updateGameStats_def missed_count_def Let_def)

lemma KeyPress_apply_fields:
  "notes_s (KeyPress_apply key s) = map (updateNote key) (notes_s s)"
  "score (KeyPress_apply key s) = calculateScore s (hittable_count key s)"
  "shouldPlayRandomNote (KeyPress_apply key s) = (hittable_count key s = 0)"
  "consecutiveHits (KeyPress_apply key s) =
     (if hittable_count key s > 0 then consecutiveHits s + 1 else 0)"
  "multiplier (KeyPress_apply key s) =
     (if hittable_count key s > 0
      then calculateMultiplier (consecutiveHits s + 1) (multiplier s) else 1)"
  "missedNotes (KeyPress_apply key s) = missedNotes s"
  "gameEnd (KeyPress_apply key s) = gameEnd s"
  by (simp_all add: KeyPress_apply_def hittable_count_def Let_def)

lemma AddNotes_apply_fields:
  "notes_s (AddNotes_apply n s) =
     (if id_n n = ''gameEndNote'' then notes_s s else notes_s s @ [n])"
  "gameEnd (AddNotes_apply n s) = (id_n n = ''gameEndNote'' \<or> gameEnd s)"
  "score (AddNotes_apply n s) = score s"
  "multiplier (AddNotes_apply n s) = multiplier s"
  "consecutiveHits (AddNotes_apply n s) = consecutiveHits s"
  "missedNotes (AddNotes_apply n s) = missedNotes s"
  "shouldPlayRandomNote (AddNotes_apply n s) = shouldPlayRandomNote s"
  by (simp_all add: AddNotes_apply_def)

lemma note0_eq:
  "note0 =
     \<lparr>id_n = ''0'', user_played = True, column = 0, y = 0, instrumentName = ''piano'',
      velocity = 1, pitch = 60, start = 2, end_n = 3, hit = False\<rparr>"
  by (simp add: note0_def example_row_def csvLineToNote_def string_of_nat.simps toLowerCase_def
      COLORS_def js_rem_def)

lemma NOTE_VELOCITY_eq: "NOTE_VELOCITY = 28 / 9"
  by (simp add: NOTE_VELOCITY_def HIT_LINE_Y_def NOTE_FALL_TIME_def TICK_RATE_MS_def)

text \<open>The equations that run the reducer on the example inputs.\<close>

lemmas run_defs =
  reduceState_def initialState_def note0_eq AddNotes_apply_def KeyPress_apply_def
  Tick_apply_def updateGameStats_def isNoteHittable_def updateNote_def isMissedNote_def
  updateNotePosition_def isNoteInPlayArea_def calculateScore_def calculateMultiplier_def
  js_rem_def Math_round_def HIT_LINE_Y_def HIT_WINDOW_def SCORE_INCREMENT_def
  NOTE_VELOCITY_eq hittable_count_def missed_count_def presses_def

section \<open>Missed notes on a tick\<close>

text \<open>
  C1. A tick adds to \<open>missedNotes\<close> the number of notes of the state that are beyond the hit
  line (\<open>y > HIT_LINE_Y\<close>) and not hit; whenever that number is positive, the resulting state
  has \<open>multiplier = 1\<close> and \<open>consecutiveHits = 0\<close>, whatever they were before.
\<close>

theorem Tick_counts_missed_and_resets:
  fixes s :: State
  defines "missedCount \<equiv> length (filter (\<lambda>n. y n > HIT_LINE_Y \<and> \<not> hit n) (notes_s s))"
  shows "missedNotes (Tick_apply s) = missedNotes s + int missedCount
         \<and> (missedCount > 0 \<longrightarrow>
              multiplier (Tick_apply s) = 1 \<and> consecutiveHits (Tick_apply s) = 0)"
proof -
  have "isMissedNote = (\<lambda>n. y n > HIT_LINE_Y \<and> \<not> hit n)"
    by (rule ext) (simp add: isMissedNote_def)
  then have "missed_count s = missedCount"
    by (simp add: missed_count_def missedCount_def)
  then show ?thesis
    by (simp add: Tick_apply_fields)
qed

theorem Tick_counts_missed_and_resets_witness:
  "length (filter (\<lambda>n. y n > HIT_LINE_Y \<and> \<not> hit n) (notes_s passed_state)) = 1
   \<and> multiplier passed_state = 12 / 10 \<and> consecutiveHits passed_state = 12
   \<and> missedNotes (Tick_apply passed_state) = missedNotes passed_state + 1
   \<and> multiplier (Tick_apply passed_state) = 1
   \<and> consecutiveHits (Tick_apply passed_state) = 0"
proof -
  have n: "length (filter (\<lambda>n. y n > HIT_LINE_Y \<and> \<not> hit n) (notes_s passed_state)) = 1"
    by (simp add: passed_state_def note0_eq HIT_LINE_Y_def)
  have before: "multiplier passed_state = 12 / 10" "consecutiveHits passed_state = 12"
    by (simp_all add: passed_state_def)
  from Tick_counts_missed_and_resets [of passed_state] show ?thesis
    unfolding n by (simp add: before)
qed

section \<open>The end of the game is final\<close>

text \<open>
  C9. Once \<open>gameEnd\<close> is true in a state, every action (\<open>Tick\<close>, \<open>AddNotes\<close> of any note,
  \<open>KeyPress\<close> of any key, \<open>PlayRandomNote\<close>) yields a state in which it is still true, and
  so does every sequence of actions: no action resets it.
\<close>

theorem gameEnd_is_final:
  assumes "gameEnd s"
  shows "gameEnd (reduceState s a) \<and> gameEnd (foldl reduceState s as)"
proof -
  have step: "gameEnd (reduceState s' a')" if "gameEnd s'" for s' a'
    using that
    by (cases a')
      (simp_all add: reduceState_def Tick_apply_fields AddNotes_apply_fields
        KeyPress_apply_fields PlayRandomNote_apply_def)
  have "gameEnd s' \<Longrightarrow> gameEnd (foldl reduceState s' as)" for s'
    by (induction as arbitrary: s') (simp_all add: step)
  with assms step show ?thesis by blast
qed

theorem gameEnd_is_final_witness:
  "gameEnd (AddNotes_apply gameEndNote initialState)
   \<and> gameEnd (reduceState (AddNotes_apply gameEndNote initialState) (AddNotes note0))
   \<and> gameEnd (foldl reduceState (AddNotes_apply gameEndNote initialState) hit_then_tick)"
proof -
  have g: "gameEnd (AddNotes_apply gameEndNote initialState)"
    by (simp add: AddNotes_apply_fields gameEndNote_def)
  show ?thesis
    using g gameEnd_is_final [OF g, of "AddNotes note0" hit_then_tick] by simp
qed

section \<open>The score\<close>

lemma state_ok_initialState: "state_ok initialState"
  by (simp add: state_ok_def initialState_def)

lemma calculateScore_Ints: "calculateScore s k \<in> \<int>"
  by (simp add: calculateScore_def Let_def Math_round_Ints)

lemma calculateScore_nonneg:
  assumes "0 \<le> score s" "0 \<le> multiplier s"
  shows "0 \<le> calculateScore s k"
proof (cases "k = 0")
  case True
  have "- (1 / 2) \<le> max 0 (score s - SCORE_DECREMENT)" by simp
  then show ?thesis
    using True by (simp add: calculateScore_def Math_round_nonneg)
next
  case False
  have "0 \<le> real k * multiplier s"
    using assms(2) by (rule mult_nonneg_nonneg [OF of_nat_0_le_iff])
  then have "- (1 / 2) \<le> score s + real k * multiplier s * SCORE_INCREMENT"
    using assms(1) unfolding SCORE_INCREMENT_def by linarith
  then show ?thesis
    using False by (simp add: calculateScore_def Math_round_nonneg)
qed

lemma calculateMultiplier_ge: "m \<le> calculateMultiplier c m"
  by (simp add: calculateMultiplier_def)

lemma state_ok_reduceState:
  assumes ok: "state_ok s"
  shows "state_ok (reduceState s a)"
proof (cases a)
  case Tick
  with ok show ?thesis
    by (simp add: state_ok_def reduceState_def Tick_apply_fields)
next
  case (AddNotes n)
  with ok show ?thesis
    by (simp add: state_ok_def reduceState_def AddNotes_apply_fields)
next
  case (KeyPress key)
  from ok have "0 \<le> calculateScore s (hittable_count key s)"
    by (intro calculateScore_nonneg) (simp_all add: state_ok_def)
  moreover have "multiplier s \<le> calculateMultiplier (consecutiveHits s + 1) (multiplier s)"
    by (rule calculateMultiplier_ge)
  ultimately show ?thesis
    using ok KeyPress
    by (simp add: state_ok_def reduceState_def KeyPress_apply_fields calculateScore_Ints)
next
  case PlayRandomNote
  with ok show ?thesis
    by (simp add: reduceState_def PlayRandomNote_apply_def)
qed

lemma state_ok_foldl: "state_ok s \<Longrightarrow> state_ok (foldl reduceState s as)"
  by (induction as arbitrary: s) (simp_all add: state_ok_reduceState)

lemma state_ok_reachable: "state_ok (foldl reduceState initialState as)"
  by (rule state_ok_foldl [OF state_ok_initialState])

lemma scan_eq_foldl:
  "scan f acc xs = map (\<lambda>k. foldl f acc (take (Suc k) xs)) [0..<length xs]"
proof (induction xs arbitrary: acc)
  case Nil
  show ?case by simp
next
  case (Cons x xs)
  have "map (\<lambda>k. foldl f acc (take (Suc k) (x # xs))) [0..<length (x # xs)]
        = foldl f acc [x] # map (\<lambda>k. foldl f (f acc x) (take (Suc k) xs)) [0..<length xs]"
    by (simp add: upt_conv_Cons map_Suc_upt [symmetric] del: upt_Suc)
  with Cons show ?case by simp
qed

lemma state_stream_reachable:
  "s \<in> set (state_stream as) \<Longrightarrow> \<exists>bs. s = foldl reduceState initialState bs"
  unfolding state_stream_def scan_eq_foldl by auto

text \<open>
  C4. In every state that a sequence of \<open>Tick\<close>, \<open>AddNotes\<close>, \<open>KeyPress\<close> and
  \<open>PlayRandomNote\<close> actions reaches from the initial state, \<open>score \<ge> 0\<close>.
\<close>

theorem score_never_negative: "0 \<le> score (foldl reduceState initialState as)"
  using state_ok_reachable [of as] by (simp add: state_ok_def)

lemma miss_at_score_zero: "score (foldl reduceState initialState [KeyPress KeyH]) = 0"
  by (simp add: run_defs SCORE_DECREMENT_def)

lemma two_hits_then_note_state:
  "foldl reduceState initialState two_hits_then_note =
     \<lparr>notes_s =
        [note0\<lparr>y := HIT_LINE_Y + NOTE_VELOCITY, hit := True\<rparr>,
         note0\<lparr>id_n := ''1'', y := HIT_LINE_Y + NOTE_VELOCITY, hit := True\<rparr>,
         note0\<lparr>id_n := ''2''\<rparr>],
      score = 2, missedNotes = 0, gameEnd = False, multiplier = 1,
      consecutiveHits = 2, shouldPlayRandomNote = False\<rparr>"
  by (simp add: two_hits_then_note_def run_defs)

text \<open>
  C2. In a state reached from the initial state, a key press that finds no hittable note
  (no note with the column of the key, \<open>|y - HIT_LINE_Y| \<le> HIT_WINDOW\<close> and \<open>hit = false\<close>)
  yields \<open>score = max(0, score - SCORE_DECREMENT)\<close>, \<open>consecutiveHits = 0\<close>,
  \<open>multiplier = 1\<close> and \<open>shouldPlayRandomNote = true\<close>.
\<close>

theorem KeyPress_without_hit:
  assumes reach: "s = foldl reduceState initialState as"
    and none: "\<forall>n \<in> set (notes_s s).
                 \<not> (column n = KEY_BINDINGS key \<and> \<bar>y n - HIT_LINE_Y\<bar> \<le> HIT_WINDOW \<and> \<not> hit n)"
  shows "score (KeyPress_apply key s) = max 0 (score s - SCORE_DECREMENT)
         \<and> consecutiveHits (KeyPress_apply key s) = 0
         \<and> multiplier (KeyPress_apply key s) = 1
         \<and> shouldPlayRandomNote (KeyPress_apply key s)"
proof -
  from none have "filter (isNoteHittable key) (notes_s s) = []"
    by (simp add: filter_empty_conv isNoteHittable_def)
  then have zero: "hittable_count key s = 0"
    by (simp add: hittable_count_def)
  from reach have "score s \<in> \<int>"
    using state_ok_reachable [of as] by (simp add: state_ok_def)
  then obtain k where k: "score s = of_int k"
    by (auto elim: Ints_cases)
  have "max 0 (score s - SCORE_DECREMENT) = of_int (max 0 (k - 1))"
    by (simp add: k SCORE_DECREMENT_def max_def)
  then have "calculateScore s 0 = max 0 (score s - SCORE_DECREMENT)"
    by (simp add: calculateScore_def Math_round_of_int)
  with zero show ?thesis
    by (simp add: KeyPress_apply_fields)
qed

theorem KeyPress_without_hit_witness:
  "length (notes_s (foldl reduceState initialState two_hits_then_note)) = 3
   \<and> filter (\<lambda>n. column n = KEY_BINDINGS KeyH \<and> \<bar>y n - HIT_LINE_Y\<bar> \<le> HIT_WINDOW \<and> \<not> hit n)
        (notes_s (foldl reduceState initialState two_hits_then_note)) = []
   \<and> score (foldl reduceState initialState two_hits_then_note) = 2
   \<and> score (KeyPress_apply KeyH (foldl reduceState initialState two_hits_then_note)) = 1
   \<and> consecutiveHits (KeyPress_apply KeyH (foldl reduceState initialState two_hits_then_note)) = 0
   \<and> multiplier (KeyPress_apply KeyH (foldl reduceState initialState two_hits_then_note)) = 1
   \<and> shouldPlayRandomNote
        (KeyPress_apply KeyH (foldl reduceState initialState two_hits_then_note))"
proof -
  let ?s = "foldl reduceState initialState two_hits_then_note"
  have none: "filter (\<lambda>n. column n = KEY_BINDINGS KeyH \<and> \<bar>y n - HIT_LINE_Y\<bar> \<le> HIT_WINDOW
                          \<and> \<not> hit n) (notes_s ?s) = []"
    by (simp add: two_hits_then_note_state note0_eq HIT_LINE_Y_def HIT_WINDOW_def)
  then have "\<forall>n \<in> set (notes_s ?s).
      \<not> (column n = KEY_BINDINGS KeyH \<and> \<bar>y n - HIT_LINE_Y\<bar> \<le> HIT_WINDOW \<and> \<not> hit n)"
    by (simp only: filter_empty_conv)
  from KeyPress_without_hit [OF refl this] none show ?thesis
    by (simp add: two_hits_then_note_state SCORE_DECREMENT_def)
qed

section \<open>Notes that were hit\<close>

lemma NOTE_VELOCITY_pos: "0 < NOTE_VELOCITY"
  by (simp add: NOTE_VELOCITY_eq)

lemma hit_not_hittable: "hit n \<Longrightarrow> \<not> isNoteHittable key n"
  by (simp add: isNoteHittable_def)

lemma updateNote_hit: "hit n \<Longrightarrow> updateNote key n = n"
  by (simp add: updateNote_def hit_not_hittable)

lemma updateNote_shape:
  "updateNote key n = n\<lparr>y := y (updateNote key n), hit := hit (updateNote key n)\<rparr>"
  by (simp add: updateNote_def)

lemma updateNote_keeps_hit: "hit n \<Longrightarrow> hit (updateNote key n)"
  by (simp add: updateNote_def)

lemma updateNotePosition_shape:
  "updateNotePosition n = n\<lparr>y := y (updateNotePosition n), hit := hit (updateNotePosition n)\<rparr>"
  by (simp add: updateNotePosition_def)

lemma updateNotePosition_hit: "hit (updateNotePosition n) = hit n"
  by (simp add: updateNotePosition_def)

lemma notes_lineage:
  "\<exists>f ns added.
      subseq ns (notes_s s) \<and> notes_s (reduceState s a) = map f ns @ added
      \<and> (\<forall>n. f n = n\<lparr>y := y (f n), hit := hit (f n)\<rparr> \<and> (hit n \<longrightarrow> hit (f n)))
      \<and> (added = [] \<or> (\<exists>n. a = AddNotes n \<and> added = [n]))"
proof (cases a)
  case Tick
  let ?ns = "filter (isNoteInPlayArea \<circ> updateNotePosition) (notes_s s)"
  have "notes_s (reduceState s a) = map updateNotePosition ?ns @ []"
    using Tick by (simp add: reduceState_def Tick_apply_fields filter_map)
  moreover have "subseq ?ns (notes_s s)" by simp
  moreover have "\<forall>n. updateNotePosition n
                      = n\<lparr>y := y (updateNotePosition n), hit := hit (updateNotePosition n)\<rparr>
                    \<and> (hit n \<longrightarrow> hit (updateNotePosition n))"
    using updateNotePosition_shape by (simp add: updateNotePosition_hit)
  ultimately show ?thesis by blast
next
  case (AddNotes n)
  have "notes_s (reduceState s a) = map (\<lambda>m. m) (notes_s s) @ (if id_n n = ''gameEndNote'' then [] else [n])"
    using AddNotes by (simp add: reduceState_def AddNotes_apply_fields)
  moreover have "subseq (notes_s s) (notes_s s)" by simp
  moreover have "\<forall>m::Note. m = m\<lparr>y := y m, hit := hit m\<rparr> \<and> (hit m \<longrightarrow> hit m)" by simp
  moreover have "(if id_n n = ''gameEndNote'' then [] else [n]) = []
                 \<or> (\<exists>m. a = AddNotes m \<and> (if id_n n = ''gameEndNote'' then [] else [n]) = [m])"
    using AddNotes by simp
  ultimately show ?thesis by blast
next
  case (KeyPress key)
  have "notes_s (reduceState s a) = map (updateNote key) (notes_s s) @ []"
    using KeyPress by (simp add: reduceState_def KeyPress_apply_fields)
  moreover have "subseq (notes_s s) (notes_s s)" by simp
  moreover have "\<forall>n. updateNote key n = n\<lparr>y := y (updateNote key n), hit := hit (updateNote key n)\<rparr>
                    \<and> (hit n \<longrightarrow> hit (updateNote key n))"
    using updateNote_shape updateNote_keeps_hit by blast
  ultimately show ?thesis by blast
next
  case PlayRandomNote
  have "notes_s (reduceState s a) = map (\<lambda>m. m) (notes_s s) @ []"
    using PlayRandomNote by (simp add: reduceState_def PlayRandomNote_apply_def)
  moreover have "subseq (notes_s s) (notes_s s)" by simp
  moreover have "\<forall>m::Note. m = m\<lparr>y := y m, hit := hit m\<rparr> \<and> (hit m \<longrightarrow> hit m)" by simp
  ultimately show ?thesis by blast
qed

text \<open>
  C5. A note with \<open>hit = true\<close> is not hittable for any key and \<open>KeyPress.apply\<close> leaves it as
  it is, at its place in the list; and no action turns \<open>hit\<close> from true to false: the notes
  after an action are notes of the state before, in their order, changed in \<open>y\<close> and \<open>hit\<close>
  at most and never from hit to not hit, followed by the note that \<open>AddNotes\<close> appends.
\<close>

theorem hit_stays_hit:
  "(\<forall>n. hit n \<longrightarrow> \<not> isNoteHittable key n \<and> updateNote key n = n)
   \<and> length (notes_s (KeyPress_apply key s)) = length (notes_s s)
   \<and> (\<forall>i < length (notes_s s).
         hit (notes_s s ! i) \<longrightarrow> notes_s (KeyPress_apply key s) ! i = notes_s s ! i)
   \<and> (\<exists>f ns added.
         subseq ns (notes_s s) \<and> notes_s (reduceState s a) = map f ns @ added
         \<and> (\<forall>n. f n = n\<lparr>y := y (f n), hit := hit (f n)\<rparr> \<and> (hit n \<longrightarrow> hit (f n)))
         \<and> (added = [] \<or> (\<exists>n. a = AddNotes n \<and> added = [n])))"
proof (intro conjI)
  show "\<forall>n. hit n \<longrightarrow> \<not> isNoteHittable key n \<and> updateNote key n = n"
    by (simp add: hit_not_hittable updateNote_hit)
  show "length (notes_s (KeyPress_apply key s)) = length (notes_s s)"
    by (simp add: KeyPress_apply_fields)
  show "\<forall>i < length (notes_s s).
          hit (notes_s s ! i) \<longrightarrow> notes_s (KeyPress_apply key s) ! i = notes_s s ! i"
    by (simp add: KeyPress_apply_fields updateNote_hit)
  show "\<exists>f ns added.
          subseq ns (notes_s s) \<and> notes_s (reduceState s a) = map f ns @ added
          \<and> (\<forall>n. f n = n\<lparr>y := y (f n), hit := hit (f n)\<rparr> \<and> (hit n \<longrightarrow> hit (f n)))
          \<and> (added = [] \<or> (\<exists>n. a = AddNotes n \<and> added = [n]))"
    by (rule notes_lineage)
qed


theorem hit_stays_hit_witness:
  "hit (notes_s three_notes ! 0)
   \<and> \<not> isNoteHittable KeyH (notes_s three_notes ! 0)
   \<and> updateNote KeyH (notes_s three_notes ! 0) = notes_s three_notes ! 0
   \<and> notes_s (KeyPress_apply KeyH three_notes) ! 0 = notes_s three_notes ! 0
   \<and> (\<exists>f ns added.
         subseq ns (notes_s three_notes)
         \<and> notes_s (reduceState three_notes Tick) = map f ns @ added
         \<and> (\<forall>n. f n = n\<lparr>y := y (f n), hit := hit (f n)\<rparr> \<and> (hit n \<longrightarrow> hit (f n)))
         \<and> (added = [] \<or> (\<exists>n. Tick = AddNotes n \<and> added = [n])))"
proof -
  have h: "hit (notes_s three_notes ! 0)" and l: "0 < length (notes_s three_notes)"
    by (simp_all add: three_notes_def)
  from hit_stays_hit [of KeyH three_notes Tick] h l show ?thesis
    by blast
qed

lemma hittable_leaves:
  "isNoteHittable key n \<Longrightarrow> \<not> isNoteInPlayArea (updateNotePosition (updateNote key n))"
  using NOTE_VELOCITY_pos
  by (simp add: updateNote_def updateNotePosition_def isNoteInPlayArea_def)

lemma updateNote_other: "\<not> isNoteHittable key n \<Longrightarrow> updateNote key n = n"
  by (simp add: updateNote_def)

lemma Tick_after_KeyPress:
  "filter isNoteInPlayArea (map updateNotePosition (map (updateNote key) xs))
   = filter isNoteInPlayArea
       (map updateNotePosition (filter (\<lambda>n. \<not> isNoteHittable key n) xs))"
  by (induction xs) (simp_all add: hittable_leaves updateNote_other)

text \<open>
  C6. A key press rewrites every hittable note with \<open>hit = true\<close> and
  \<open>y = HIT_LINE_Y + NOTE_VELOCITY\<close>; the note is still in the list after the key press, and
  the tick that follows removes it: what that tick keeps are the notes that were not
  hittable, moved, where they are still in the play area.
\<close>

theorem hit_note_leaves_on_next_Tick:
  "(\<forall>n. isNoteHittable key n \<longrightarrow>
        updateNote key n = n\<lparr>y := HIT_LINE_Y + NOTE_VELOCITY, hit := True\<rparr>)
   \<and> notes_s (KeyPress_apply key s) = map (updateNote key) (notes_s s)
   \<and> notes_s (Tick_apply (KeyPress_apply key s))
       = filter isNoteInPlayArea
           (map updateNotePosition (filter (\<lambda>n. \<not> isNoteHittable key n) (notes_s s)))
   \<and> (\<forall>n \<in> set (notes_s s). isNoteHittable key n \<longrightarrow>
         updateNote key n \<in> set (notes_s (KeyPress_apply key s))
         \<and> updateNotePosition (updateNote key n)
             \<notin> set (notes_s (Tick_apply (KeyPress_apply key s))))"
proof (intro conjI)
  show "\<forall>n. isNoteHittable key n \<longrightarrow>
          updateNote key n = n\<lparr>y := HIT_LINE_Y + NOTE_VELOCITY, hit := True\<rparr>"
    by (simp add: updateNote_def)
  show "notes_s (KeyPress_apply key s) = map (updateNote key) (notes_s s)"
    by (simp add: KeyPress_apply_fields)
  show "notes_s (Tick_apply (KeyPress_apply key s))
        = filter isNoteInPlayArea
            (map updateNotePosition (filter (\<lambda>n. \<not> isNoteHittable key n) (notes_s s)))"
    by (simp only: Tick_apply_fields KeyPress_apply_fields Tick_after_KeyPress)
  show "\<forall>n \<in> set (notes_s s). isNoteHittable key n \<longrightarrow>
          updateNote key n \<in> set (notes_s (KeyPress_apply key s))
          \<and> updateNotePosition (updateNote key n)
              \<notin> set (notes_s (Tick_apply (KeyPress_apply key s)))"
  proof (intro ballI impI conjI)
    fix n assume "n \<in> set (notes_s s)" and hittable: "isNoteHittable key n"
    then show "updateNote key n \<in> set (notes_s (KeyPress_apply key s))"
      by (simp add: KeyPress_apply_fields)
    from hittable_leaves [OF hittable]
    show "updateNotePosition (updateNote key n)
            \<notin> set (notes_s (Tick_apply (KeyPress_apply key s)))"
      by (simp add: Tick_apply_fields)
  qed
qed

lemma three_notes_hittable: "isNoteHittable KeyH (notes_s three_notes ! 1)"
  by (simp add: three_notes_def isNoteHittable_def note0_eq HIT_LINE_Y_def HIT_WINDOW_def)

theorem hit_note_leaves_on_next_Tick_witness:
  "isNoteHittable KeyH (notes_s three_notes ! 1)
   \<and> notes_s three_notes ! 1 \<in> set (notes_s three_notes)
   \<and> updateNote KeyH (notes_s three_notes ! 1)
       = (notes_s three_notes ! 1)\<lparr>y := HIT_LINE_Y + NOTE_VELOCITY, hit := True\<rparr>
   \<and> updateNote KeyH (notes_s three_notes ! 1) \<in> set (notes_s (KeyPress_apply KeyH three_notes))
   \<and> updateNotePosition (updateNote KeyH (notes_s three_notes ! 1))
       \<notin> set (notes_s (Tick_apply (KeyPress_apply KeyH three_notes)))
   \<and> notes_s (Tick_apply (KeyPress_apply KeyH three_notes))
       = [note0\<lparr>id_n := ''2'', column := 1, y := 10 + NOTE_VELOCITY\<rparr>]"
proof -
  note T = hit_note_leaves_on_next_Tick [of KeyH three_notes]
  have m: "notes_s three_notes ! 1 \<in> set (notes_s three_notes)"
    by (simp add: three_notes_def)
  have rewritten: "updateNote KeyH (notes_s three_notes ! 1)
      = (notes_s three_notes ! 1)\<lparr>y := HIT_LINE_Y + NOTE_VELOCITY, hit := True\<rparr>"
    using T three_notes_hittable by blast
  have kept_then_gone:
    "updateNote KeyH (notes_s three_notes ! 1) \<in> set (notes_s (KeyPress_apply KeyH three_notes))
     \<and> updateNotePosition (updateNote KeyH (notes_s three_notes ! 1))
         \<notin> set (notes_s (Tick_apply (KeyPress_apply KeyH three_notes)))"
    using T three_notes_hittable m by blast
  have "filter isNoteInPlayArea
          (map updateNotePosition (filter (\<lambda>n. \<not> isNoteHittable KeyH n) (notes_s three_notes)))
        = [note0\<lparr>id_n := ''2'', column := 1, y := 10 + NOTE_VELOCITY\<rparr>]"
    by (simp add: three_notes_def isNoteHittable_def isNoteInPlayArea_def updateNotePosition_def
        note0_eq HIT_LINE_Y_def HIT_WINDOW_def NOTE_VELOCITY_eq)
  with T have rest: "notes_s (Tick_apply (KeyPress_apply KeyH three_notes))
      = [note0\<lparr>id_n := ''2'', column := 1, y := 10 + NOTE_VELOCITY\<rparr>]"
    by (simp only:)
  from three_notes_hittable m rewritten kept_then_gone rest show ?thesis
    by blast
qed


section \<open>The combo multiplier\<close>

lemma js_rem_nonneg: "0 \<le> a \<Longrightarrow> js_rem a 10 = a mod 10"
  by (simp add: js_rem_def sgn_if)

lemma div10_step: "(c + 1) div 10 - c div 10 = (if (c + 1) mod 10 = 0 then 1 else 0)" for c :: int
  by presburger

lemma no_miss_append:
  "no_miss s (as @ bs) \<longleftrightarrow> no_miss s as \<and> no_miss (foldl reduceState s as) bs"
  by (induction as arbitrary: s) simp_all

lemma no_miss_take: "no_miss s as \<Longrightarrow> no_miss s (take k as)"
  using no_miss_append [of s "take k as" "drop k as"] by simp

lemma presses_Cons:
  "presses (a # as) = (if is_KeyPress a then Suc (presses as) else presses as)"
  by (simp add: presses_def)

lemma presses_take_le: "presses (take k as) \<le> presses as"
proof -
  have "presses (take k as @ drop k as) = presses (take k as) + presses (drop k as)"
    unfolding presses_def by (simp only: filter_append length_append)
  then show ?thesis by simp
qed

lemma combo_run:
  assumes "no_miss s as" and "0 \<le> consecutiveHits s"
  shows "consecutiveHits (foldl reduceState s as) = consecutiveHits s + int (presses as)
         \<and> multiplier (foldl reduceState s as) =
             multiplier s
             + 2 / 10 * real_of_int ((consecutiveHits s + int (presses as)) div 10
                                     - consecutiveHits s div 10)"
  using assms
proof (induction as arbitrary: s)
  case Nil
  show ?case by (simp add: presses_def)
next
  case (Cons a as)
  let ?s' = "reduceState s a"
  from Cons.prems have clean: "\<not> produces_miss a s" and rest: "no_miss ?s' as"
    by simp_all
  have step: "consecutiveHits ?s' = consecutiveHits s + (if is_KeyPress a then 1 else 0)
              \<and> multiplier ?s' =
                  multiplier s
                  + 2 / 10 * real_of_int ((consecutiveHits s + (if is_KeyPress a then 1 else 0)) div 10
                                          - consecutiveHits s div 10)"
  proof (cases a)
    case Tick
    with clean show ?thesis
      by (simp add: reduceState_def Tick_apply_fields)
  next
    case (AddNotes n)
    then show ?thesis
      by (simp add: reduceState_def AddNotes_apply_fields)
  next
    case (KeyPress key)
    with clean have "0 < hittable_count key s" by simp
    with KeyPress Cons.prems(2) show ?thesis
      by (simp add: reduceState_def KeyPress_apply_fields calculateMultiplier_def
          js_rem_nonneg div10_step)
  next
    case PlayRandomNote
    then show ?thesis
      by (simp add: reduceState_def PlayRandomNote_apply_def)
  qed
  then have nonneg: "0 \<le> consecutiveHits ?s'"
    using Cons.prems(2) by simp
  from Cons.IH [OF rest nonneg] step show ?case
    by (simp add: presses_Cons algebra_simps)
qed

text \<open>
  C3. From a state with \<open>consecutiveHits = 0\<close> and multiplier \<open>m\<close>, a run of actions
  with exactly ten key presses, each of them with \<open>notesHit > 0\<close>, and with no action that
  produces a miss (no tick that counts a missed note) ends with the multiplier at
  \<open>m + 0.2\<close>. The 0.2 is added once, by the tenth press: at every point of the run the
  multiplier is \<open>m\<close> while fewer than ten presses have happened, and \<open>m + 0.2\<close> from the
  tenth on.
\<close>

theorem tenth_hit_raises_multiplier:
  assumes zero: "consecutiveHits s = 0"
    and clean: "no_miss s as"
    and ten: "presses as = 10"
  shows "multiplier (foldl reduceState s as) = multiplier s + 2 / 10
         \<and> (\<forall>k \<le> length as.
               multiplier (foldl reduceState s (take k as)) =
                 (if presses (take k as) < 10 then multiplier s else multiplier s + 2 / 10))"
proof (intro conjI allI impI)
  from combo_run [OF clean] zero ten
  show "multiplier (foldl reduceState s as) = multiplier s + 2 / 10"
    by simp
next
  fix k assume "k \<le> length as"
  let ?p = "presses (take k as)"
  have le: "?p \<le> 10"
    using presses_take_le [of k as] ten by simp
  have "multiplier (foldl reduceState s (take k as))
        = multiplier s + 2 / 10 * real_of_int (int ?p div 10)"
    using combo_run [OF no_miss_take [OF clean, of k]] zero by simp
  moreover have "int ?p div 10 = (if ?p < 10 then 0 else 1)"
    using le by auto
  ultimately show "multiplier (foldl reduceState s (take k as)) =
      (if ?p < 10 then multiplier s else multiplier s + 2 / 10)"
    by simp
qed

theorem tenth_hit_raises_multiplier_witness:
  "consecutiveHits initialState = 0
   \<and> no_miss initialState ten_rounds
   \<and> presses ten_rounds = 10
   \<and> multiplier (foldl reduceState initialState ten_rounds) = 1 + 2 / 10
   \<and> presses (take 27 ten_rounds) = 9
   \<and> multiplier (foldl reduceState initialState (take 27 ten_rounds)) = 1
   \<and> presses (take 29 ten_rounds) = 10
   \<and> multiplier (foldl reduceState initialState (take 29 ten_rounds)) = 1 + 2 / 10"
proof -
  have zero: "consecutiveHits initialState = 0" and one: "multiplier initialState = 1"
    by (simp_all add: initialState_def)
  have clean: "no_miss initialState ten_rounds"
    by (simp add: ten_rounds_def hit_then_tick_def eval_nat_numeral run_defs)
  have ten: "presses ten_rounds = 10"
    and nine: "presses (take 27 ten_rounds) = 9"
    and ten': "presses (take 29 ten_rounds) = 10"
    and len: "27 \<le> length ten_rounds" "29 \<le> length ten_rounds"
    by (simp_all add: ten_rounds_def hit_then_tick_def eval_nat_numeral presses_def)
  note T = tenth_hit_raises_multiplier [OF zero clean ten]
  from T have "multiplier (foldl reduceState initialState ten_rounds) = 1 + 2 / 10"
    by (simp add: one)
  moreover from T len(1) have "multiplier (foldl reduceState initialState (take 27 ten_rounds)) = 1"
    unfolding one by (simp add: nine)
  moreover from T len(2)
  have "multiplier (foldl reduceState initialState (take 29 ten_rounds)) = 1 + 2 / 10"
    unfolding one by (simp add: ten')
  ultimately show ?thesis
    using zero clean ten nine ten' by blast
qed


section \<open>Notes that were missed\<close>

lemma missed_leaves: "isMissedNote n \<Longrightarrow> \<not> isNoteInPlayArea (updateNotePosition n)"
  by (simp add: isMissedNote_def isNoteInPlayArea_def updateNotePosition_def)

lemma Tick_keeps_unmissed:
  "filter isNoteInPlayArea (map updateNotePosition xs)
   = filter isNoteInPlayArea (map updateNotePosition (filter (\<lambda>n. \<not> isMissedNote n) xs))"
  by (induction xs) (simp_all add: missed_leaves)

lemma Tick_accounting:
  "length (filter isMissedNote xs) + length (filter isNoteInPlayArea (map updateNotePosition xs))
   \<le> length xs"
proof -
  have "length (filter isNoteInPlayArea (map updateNotePosition xs))
        \<le> length (filter (\<lambda>n. \<not> isMissedNote n) xs)"
    by (subst Tick_keeps_unmissed) (metis length_filter_le length_map)
  moreover have "length (filter isMissedNote xs) + length (filter (\<lambda>n. \<not> isMissedNote n) xs)
                 = length xs"
    by (rule sum_length_filter_compl)
  ultimately show ?thesis by linarith
qed

lemma accounting_step:
  "missedNotes (reduceState s a) + int (length (notes_s (reduceState s a)))
   \<le> missedNotes s + int (length (notes_s s)) + (if is_AddNotes a then 1 else 0)"
proof (cases a)
  case Tick
  have "int (missed_count s) + int (length (notes_s (Tick_apply s))) \<le> int (length (notes_s s))"
    using Tick_accounting [of "notes_s s"]
    by (simp add: Tick_apply_fields missed_count_def)
  with Tick show ?thesis
    by (simp add: reduceState_def Tick_apply_fields(1))
next
  case (AddNotes n)
  then show ?thesis by (simp add: reduceState_def AddNotes_apply_fields)
next
  case (KeyPress key)
  then show ?thesis by (simp add: reduceState_def KeyPress_apply_fields)
next
  case PlayRandomNote
  then show ?thesis by (simp add: reduceState_def PlayRandomNote_apply_def)
qed

lemma accounting_run:
  "missedNotes (foldl reduceState s as) + int (length (notes_s (foldl reduceState s as)))
   \<le> missedNotes s + int (length (notes_s s)) + int (length (filter is_AddNotes as))"
proof (induction as arbitrary: s)
  case Nil
  show ?case by simp
next
  case (Cons a as)
  from Cons.IH [of "reduceState s a"] accounting_step [of s a] show ?case
    by (cases "is_AddNotes a") simp_all
qed

text \<open>
  C10. Every note that a tick counts as missed (\<open>y > HIT_LINE_Y\<close> and \<open>hit = false\<close> in the
  state before) is absent from the notes of the state after: the tick keeps only notes that
  it did not count. So no note is counted by two ticks, and over any run of actions the
  misses counted and the notes still in play together never exceed the notes that were
  in play at the start or added since.
\<close>

theorem missed_note_leaves_on_its_Tick:
  "(\<forall>n \<in> set (notes_s s). y n > HIT_LINE_Y \<and> \<not> hit n \<longrightarrow>
       updateNotePosition n \<notin> set (notes_s (Tick_apply s)))
   \<and> notes_s (Tick_apply s)
       = filter isNoteInPlayArea
           (map updateNotePosition
              (filter (\<lambda>n. \<not> (y n > HIT_LINE_Y \<and> \<not> hit n)) (notes_s s)))
   \<and> missedNotes (foldl reduceState s as) + int (length (notes_s (foldl reduceState s as)))
       \<le> missedNotes s + int (length (notes_s s)) + int (length (filter is_AddNotes as))"
proof (intro conjI ballI impI)
  fix n assume "n \<in> set (notes_s s)" and "y n > HIT_LINE_Y \<and> \<not> hit n"
  then have "\<not> isNoteInPlayArea (updateNotePosition n)"
    by (intro missed_leaves) (simp add: isMissedNote_def)
  then show "updateNotePosition n \<notin> set (notes_s (Tick_apply s))"
    by (simp add: Tick_apply_fields)
next
  have "(\<lambda>n. \<not> isMissedNote n) = (\<lambda>n. \<not> (y n > HIT_LINE_Y \<and> \<not> hit n))"
    by (rule ext) (simp add: isMissedNote_def)
  with Tick_keeps_unmissed [of "notes_s s"]
  show "notes_s (Tick_apply s)
        = filter isNoteInPlayArea
            (map updateNotePosition
               (filter (\<lambda>n. \<not> (y n > HIT_LINE_Y \<and> \<not> hit n)) (notes_s s)))"
    by (simp add: Tick_apply_fields)
next
  show "missedNotes (foldl reduceState s as) + int (length (notes_s (foldl reduceState s as)))
        \<le> missedNotes s + int (length (notes_s s)) + int (length (filter is_AddNotes as))"
    by (rule accounting_run)
qed

theorem missed_note_leaves_on_its_Tick_witness:
  "note0\<lparr>y := 352\<rparr> \<in> set (notes_s passed_state)
   \<and> y (note0\<lparr>y := 352\<rparr>) > HIT_LINE_Y \<and> \<not> hit (note0\<lparr>y := 352\<rparr>)
   \<and> updateNotePosition (note0\<lparr>y := 352\<rparr>) \<notin> set (notes_s (Tick_apply passed_state))
   \<and> notes_s (Tick_apply passed_state) = []
   \<and> missedNotes (foldl reduceState passed_state [Tick, Tick])
        + int (length (notes_s (foldl reduceState passed_state [Tick, Tick])))
       \<le> missedNotes passed_state + 1"
proof -
  note T = missed_note_leaves_on_its_Tick [of passed_state "[Tick, Tick]"]
  have m: "note0\<lparr>y := 352\<rparr> \<in> set (notes_s passed_state)"
    and beyond: "y (note0\<lparr>y := 352\<rparr>) > HIT_LINE_Y \<and> \<not> hit (note0\<lparr>y := 352\<rparr>)"
    by (simp_all add: passed_state_def note0_eq HIT_LINE_Y_def)
  from T m beyond
  have gone: "updateNotePosition (note0\<lparr>y := 352\<rparr>) \<notin> set (notes_s (Tick_apply passed_state))"
    by blast
  have "filter (\<lambda>n. \<not> (y n > HIT_LINE_Y \<and> \<not> hit n)) (notes_s passed_state) = []"
    by (simp add: passed_state_def note0_eq HIT_LINE_Y_def)
  with T have none: "notes_s (Tick_apply passed_state) = []"
    by simp
  from T have "missedNotes (foldl reduceState passed_state [Tick, Tick])
        + int (length (notes_s (foldl reduceState passed_state [Tick, Tick])))
       \<le> missedNotes passed_state + 1"
    by (simp add: passed_state_def)
  with m beyond gone none show ?thesis by blast
qed

lemma twice_counted_once:
  "missedNotes (foldl reduceState passed_state [Tick, Tick]) = missedNotes passed_state + 1"
  by (simp add: passed_state_def note0_eq reduceState_def Tick_apply_def updateGameStats_def
      isMissedNote_def updateNotePosition_def isNoteInPlayArea_def HIT_LINE_Y_def
      NOTE_VELOCITY_eq)


section \<open>The random number generator\<close>

lemma ulp_small: "a < 2 ^ 53 \<Longrightarrow> ulp a = 1"
  by (subst ulp.simps) simp

lemma ulp_large: "\<not> a < 2 ^ 53 \<Longrightarrow> ulp a = 2 * ulp (a div 2)"
  by (subst ulp.simps) simp

lemma ulp_pos: "0 < ulp a"
proof (induction a rule: ulp.induct)
  case (1 a)
  show ?case
  proof (cases "a < 2 ^ 53")
    case True
    then show ?thesis by (simp add: ulp_small)
  next
    case False
    with 1 have "0 < ulp (a div 2)" by simp
    with False show ?thesis by (simp add: ulp_large)
  qed
qed

lemma ulp_le: "a < 2 ^ (53 + k) \<Longrightarrow> ulp a \<le> 2 ^ k"
proof (induction k arbitrary: a)
  case 0
  then show ?case by (simp add: ulp_small)
next
  case (Suc k)
  have double: "(2::int) ^ Suc k = 2 * 2 ^ k" by (rule power_Suc)
  show ?case
  proof (cases "a < 2 ^ 53")
    case True
    have "(1::int) \<le> 2 ^ Suc k" by (rule one_le_power) simp
    with ulp_small [OF True] show ?thesis by (simp only:)
  next
    case False
    have "(2::int) ^ (53 + Suc k) = 2 * 2 ^ (53 + k)" by (simp only: add_Suc_right power_Suc)
    with Suc.prems have "a < 2 * 2 ^ (53 + k)" by (simp only:)
    then have "a div 2 < 2 ^ (53 + k)" by linarith
    then have "ulp (a div 2) \<le> 2 ^ k" by (rule Suc.IH)
    with ulp_large [OF False] double show ?thesis by linarith
  qed
qed

lemma ulp_ge: "2 ^ (52 + k) \<le> a \<Longrightarrow> 2 ^ k \<le> ulp a"
proof (induction k arbitrary: a)
  case 0
  from ulp_pos [of a] show ?case by simp
next
  case (Suc k)
  have double: "(2::int) ^ Suc k = 2 * 2 ^ k" by (rule power_Suc)
  have "(2::int) ^ (52 + Suc k) = 2 * 2 ^ (52 + k)" by (simp only: add_Suc_right power_Suc)
  with Suc.prems have big: "2 * 2 ^ (52 + k) \<le> a" by (simp only:)
  have "(2::int) ^ 52 \<le> 2 ^ (52 + k)" by (rule power_increasing) simp_all
  then have "(2::int) ^ 53 \<le> 2 * 2 ^ (52 + k)" by simp
  with big have large: "\<not> a < 2 ^ 53" by linarith
  from big have "2 ^ (52 + k) \<le> a div 2" by linarith
  then have "2 ^ k \<le> ulp (a div 2)" by (rule Suc.IH)
  with ulp_large [OF large] double show ?case by linarith
qed

lemma round_half_even_nonneg:
  assumes "0 \<le> a" and "0 < q"
  shows "0 \<le> round_half_even a q"
proof -
  from assms have "0 \<le> a div q" by (simp add: pos_imp_zdiv_nonneg_iff)
  then show ?thesis by (simp add: round_half_even_def Let_def)
qed

lemma round_half_even_one: "round_half_even a 1 = a"
  by (simp add: round_half_even_def)

lemma round_half_even_upper:
  assumes "0 < q"
  shows "2 * (round_half_even a q * q) \<le> 2 * a + q"
proof -
  have split: "a = a div q * q + a mod q" by simp
  have r: "0 \<le> a mod q" using assms by simp
  have up: "(a div q + 1) * q = a div q * q + q" by (simp add: algebra_simps)
  show ?thesis
  proof (cases "2 * (a mod q) < q")
    case True
    then have "round_half_even a q * q = a div q * q"
      by (simp add: round_half_even_def Let_def)
    with split r assms show ?thesis by linarith
  next
    case False
    then have "round_half_even a q * q \<le> (a div q + 1) * q"
      using assms by (simp add: round_half_even_def Let_def)
    with up split False show ?thesis by linarith
  qed
qed

lemma nearest_nonneg_eq:
  assumes "0 \<le> x"
  shows "nearest x = round_half_even x (ulp x) * ulp x"
proof (cases "x = 0")
  case True
  have "ulp 0 = 1" by (rule ulp_small) simp
  with True show ?thesis by (simp add: nearest_def round_half_even_one)
next
  case False
  with assms have "sgn x = 1" and "\<bar>x\<bar> = x" by simp_all
  then show ?thesis by (simp add: nearest_def Let_def)
qed

lemma nearest_exact: "\<bar>x\<bar> < 2 ^ 53 \<Longrightarrow> nearest x = x"
  by (simp add: nearest_def ulp_small round_half_even_one Let_def sgn_mult_abs abs_mult_sgn)

lemma nearest_nonneg:
  assumes "0 \<le> x"
  shows "0 \<le> nearest x"
  using round_half_even_nonneg [OF assms ulp_pos [of x]] ulp_pos [of x]
  by (simp add: nearest_nonneg_eq [OF assms])

text \<open>Below \<open>2^1024 - 2^970\<close> a result rounds to a finite double, at most the largest one.\<close>

lemma nearest_finite:
  assumes "0 \<le> x" and below: "x < 2 ^ 1024 - 2 ^ 970"
  shows "nearest x \<le> 2 ^ 1024 - 2 ^ 971"
proof (cases "x < 2 ^ 1023")
  case True
  then have "ulp x \<le> 2 ^ 970"
    using ulp_le [of x 970] by simp
  with round_half_even_upper [OF ulp_pos, of x x] True
  have "2 * nearest x < 2 * 2 ^ 1023 + 2 ^ 970"
    by (simp only: nearest_nonneg_eq [OF assms(1)])
  then show ?thesis by simp
next
  case False
  then have "2 ^ 971 \<le> ulp x"
    using ulp_ge [of 971 x] by simp
  moreover from below have "ulp x \<le> 2 ^ 971"
    using ulp_le [of x 971] by simp
  ultimately have q: "ulp x = 2 ^ 971" by simp
  let ?m = "round_half_even x (2 ^ 971)"
  have eq: "nearest x = ?m * 2 ^ 971"
    by (simp only: nearest_nonneg_eq [OF assms(1)] q)
  from round_half_even_upper [of "2 ^ 971" x] below
  have "2 * (?m * 2 ^ 971) < 2 * (2 ^ 53 * 2 ^ 971)" by simp
  then have "?m < 2 ^ 53" by simp
  then have "?m \<le> 2 ^ 53 - 1" by simp
  then have "?m * 2 ^ 971 \<le> (2 ^ 53 - 1) * 2 ^ 971"
    by (rule mult_right_mono) simp
  with eq show ?thesis by simp
qed

lemma to_double_finite:
  assumes "0 \<le> x" and "x < 2 ^ 1024 - 2 ^ 970"
  shows "to_double x = Some (nearest x)"
  using nearest_finite [OF assms] nearest_nonneg [OF assms(1)]
  by (simp add: to_double_def Let_def)

lemma js_rem_nonneg_pos: "0 \<le> a \<Longrightarrow> 0 < b \<Longrightarrow> js_rem a b = a mod b"
  by (simp add: js_rem_def sgn_if)

lemma hash_finite:
  assumes "0 \<le> seed" and "RNG_a * seed < 2 ^ 1024 - 2 ^ 970"
  shows "hash seed = Some (nearest (nearest (RNG_a * seed) + RNG_c) mod RNG_m)"
proof -
  let ?p = "nearest (RNG_a * seed)"
  from assms(1) have prod: "0 \<le> RNG_a * seed" by (simp add: RNG_a_def)
  have first: "to_double (RNG_a * seed) = Some ?p"
    using prod assms(2) by (rule to_double_finite)
  have p: "0 \<le> ?p" "?p \<le> 2 ^ 1024 - 2 ^ 971"
    using nearest_nonneg [OF prod] nearest_finite [OF prod assms(2)] by simp_all
  then have sum: "0 \<le> ?p + RNG_c" "?p + RNG_c < 2 ^ 1024 - 2 ^ 970"
    by (simp_all add: RNG_c_def)
  then have second: "to_double (?p + RNG_c) = Some (nearest (?p + RNG_c))"
    by (rule to_double_finite)
  have "0 \<le> nearest (?p + RNG_c)"
    using sum(1) by (rule nearest_nonneg)
  then have "js_rem (nearest (?p + RNG_c)) RNG_m = nearest (?p + RNG_c) mod RNG_m"
    by (rule js_rem_nonneg_pos) (simp add: RNG_m_def)
  with first second show ?thesis
    by (simp add: hash_def)
qed

lemma hash_range:
  assumes "0 \<le> seed" and "RNG_a * seed < 2 ^ 1024 - 2 ^ 970"
  shows "\<exists>h. hash seed = Some h \<and> 0 \<le> h \<and> h < RNG_m"
  by (simp add: hash_finite [OF assms] RNG_m_def)

lemma hash_exact:
  assumes "0 \<le> seed" and "RNG_a * seed + RNG_c < 2 ^ 53"
  shows "hash seed = Some ((RNG_a * seed + RNG_c) mod 2 ^ 31)"
proof -
  from assms(1) have p: "0 \<le> RNG_a * seed" by (simp add: RNG_a_def)
  with assms(2) have small: "\<bar>RNG_a * seed\<bar> < 2 ^ 53" by (simp add: RNG_c_def)
  then have one: "nearest (RNG_a * seed) = RNG_a * seed" by (rule nearest_exact)
  from p assms(2) have "\<bar>RNG_a * seed + RNG_c\<bar> < 2 ^ 53" by (simp add: RNG_c_def)
  then have two: "nearest (RNG_a * seed + RNG_c) = RNG_a * seed + RNG_c" by (rule nearest_exact)
  from small have "RNG_a * seed < 2 ^ 1024 - 2 ^ 970" by simp
  from hash_finite [OF assms(1) this] show ?thesis
    by (simp add: one two RNG_m_def)
qed

lemma scale_range:
  assumes "0 \<le> h" and "h < RNG_m"
  shows "- 1 \<le> scale h \<and> scale h \<le> 1"
proof -
  from assms have "0 \<le> real_of_int h" and "real_of_int h \<le> 2147483647"
    by (simp_all add: RNG_m_def)
  then show ?thesis
    by (simp add: scale_def RNG_m_def field_simps)
qed

text \<open>From \<open>2^1024 - 2^970\<close> on a result rounds to an infinity.\<close>

lemma round_half_even_lower:
  assumes "0 < q"
  shows "a div q \<le> round_half_even a q"
  by (simp add: round_half_even_def Let_def)

lemma round_half_even_up:
  assumes "a = q * d + r" and "q \<le> 2 * r" and "r < q" and "odd d"
  shows "round_half_even a q = d + 1"
proof -
  from assms(2,3) have r: "0 \<le> r" by linarith
  have "a div q = d" using assms(1) r assms(3) by (rule int_div_pos_eq)
  moreover have "a mod q = r" using assms(1) r assms(3) by (rule int_mod_pos_eq)
  ultimately show ?thesis
    using assms(2,4) by (simp add: round_half_even_def Let_def)
qed

lemma ulp_times: "2 ^ 52 \<le> a \<Longrightarrow> 2 ^ 52 * ulp a \<le> a"
proof (induction a rule: ulp.induct)
  case (1 a)
  show ?case
  proof (cases "a < 2 ^ 53")
    case True
    with "1.prems" ulp_small [OF True] show ?thesis by simp
  next
    case False
    then have half: "2 ^ 52 \<le> a div 2" by simp
    from "1.IH" [OF False half] have "2 ^ 52 * ulp (a div 2) \<le> a div 2" .
    moreover have "2 * (a div 2) \<le> a" by simp
    ultimately show ?thesis
      using ulp_large [OF False] by simp
  qed
qed

lemma nearest_infinite:
  assumes above: "2 ^ 1024 - 2 ^ 970 \<le> x"
  shows "2 ^ 1024 \<le> nearest x"
proof -
  from above have pos: "0 \<le> x" by simp
  have eq: "nearest x = round_half_even x (ulp x) * ulp x"
    using pos by (rule nearest_nonneg_eq)
  show ?thesis
  proof (cases "x < 2 ^ 1024")
    case True
    from above have "2 ^ 971 \<le> ulp x"
      using ulp_ge [of 971 x] by simp
    moreover from True have "ulp x \<le> 2 ^ 971"
      using ulp_le [of x 971] by simp
    ultimately have q: "ulp x = 2 ^ 971" by simp
    define r where "r = x - (2 ^ 53 - 1) * 2 ^ 971"
    have r: "2 ^ 970 \<le> r" "r < 2 ^ 971"
      using above True by (simp_all add: r_def)
    have x: "x = 2 ^ 971 * (2 ^ 53 - 1) + r"
      by (simp add: r_def)
    have "round_half_even x (2 ^ 971) = (2 ^ 53 - 1) + 1"
      using x by (rule round_half_even_up) (use r in simp_all)
    with eq q show ?thesis by simp
  next
    case False
    then have big: "2 ^ 1024 \<le> x" by simp
    then have q: "2 ^ 972 \<le> ulp x"
      using ulp_ge [of 972 x] by simp
    from big have "2 ^ 52 * ulp x \<le> x"
      by (intro ulp_times) simp
    then have "2 ^ 52 * ulp x div ulp x \<le> x div ulp x"
      by (rule zdiv_mono1) (rule ulp_pos)
    then have "2 ^ 52 \<le> x div ulp x"
      using ulp_pos [of x] by simp
    then have m: "2 ^ 52 \<le> round_half_even x (ulp x)"
      using round_half_even_lower [OF ulp_pos, of x x] by linarith
    have "(2::int) ^ 1024 = 2 ^ 52 * 2 ^ 972" by simp
    also have "\<dots> \<le> round_half_even x (ulp x) * ulp x"
      using m q by (rule mult_mono) (use m in simp_all)
    finally show ?thesis
      by (simp only: eq)
  qed
qed

lemma hash_infinite:
  assumes "0 \<le> seed" and "2 ^ 1024 - 2 ^ 970 \<le> RNG_a * seed"
  shows "hash seed = None"
proof -
  from nearest_infinite [OF assms(2)] have "\<not> \<bar>nearest (RNG_a * seed)\<bar> < 2 ^ 1024"
    by simp
  then have "to_double (RNG_a * seed) = None"
    by (simp add: to_double_def Let_def)
  then show ?thesis by (simp add: hash_def)
qed

text \<open>
  C8, amended. \<open>hash\<close> and \<open>scale\<close> are functions of their argument alone. For every
  integer seed that is not negative and whose product with \<open>1103515245\<close> stays below
  \<open>2^1024 - 2^970\<close>, where a double rounds to an infinity, \<open>hash(seed)\<close> is a number,
  \<open>scale(hash(seed))\<close> lies in \<open>[-1, 1]\<close>, and \<open>hash(seed)\<close> is
  \<open>(1103515245 * seed + 12345) mod 2^31\<close> whenever \<open>1103515245 * seed + 12345 < 2^53\<close>, that
  is, whenever the double arithmetic is exact.
\<close>

theorem hash_scaled_within_unit:
  assumes "0 \<le> seed" and "RNG_a * seed < 2 ^ 1024 - 2 ^ 970"
  shows "\<exists>h. hash seed = Some h \<and> - 1 \<le> scale h \<and> scale h \<le> 1
           \<and> (RNG_a * seed + RNG_c < 2 ^ 53 \<longrightarrow> h = (RNG_a * seed + RNG_c) mod 2 ^ 31)"
proof -
  from hash_range [OF assms] obtain h where h: "hash seed = Some h" "0 \<le> h" "h < RNG_m"
    by blast
  from scale_range [OF h(2,3)] have "- 1 \<le> scale h" "scale h \<le> 1" by simp_all
  moreover have "h = (RNG_a * seed + RNG_c) mod 2 ^ 31" if "RNG_a * seed + RNG_c < 2 ^ 53"
    using hash_exact [OF assms(1) that] h(1) by simp
  ultimately show ?thesis using h(1) by blast
qed

lemma hash_minus_one: "hash (- 1) = Some (- 1103502900)"
  by code_simp

lemma product_is_rounded:
  "RNG_a * 1406932606 = 1552571579408578470
   \<and> ulp 1552571579408578470 = 256
   \<and> to_double (RNG_a * 1406932606) = Some 1552571579408578560
   \<and> to_double (1552571579408578560 + RNG_c) = Some 1552571579408590848"
  by code_simp

lemma hash_of_second_hash: "hash 1406932606 = Some 654583808"
  by code_simp

lemma first_hashes:
  "hash 0 = Some 12345 \<and> hash 12345 = Some 1406932606 \<and> hash 654583808 = Some 1358247936"
  by code_simp

lemma hash_overflows: "hash (2 ^ 1000) = None"
  by (rule hash_infinite) (simp_all add: RNG_a_def)

text \<open>
  C8, as stated, fails on the code in three ways. A negative seed gives a negative
  remainder (the sign of the dividend), which is not the residue and which \<open>scale\<close> sends
  below \<open>-1\<close>. From the third value of the sequence that starts at seed 0 on, the product is
  rounded before the remainder is taken. The seed \<open>1406932606\<close> is \<open>hash(hash(0))\<close>; its
  product with \<open>1103515245\<close> is \<open>1552571579408578470\<close>, a number of 61 bits, where doubles
  are 256 apart; the double is \<open>1552571579408578560\<close>, the sum with \<open>12345\<close> is held as
  \<open>1552571579408590848\<close>, and the remainder is \<open>654583808\<close>, while the residue of the exact
  sum is \<open>654583775\<close>. And the seed \<open>2^1000\<close>, an integer that is a double, takes the product
  beyond the largest double: the product is \<open>Infinity\<close>, the remainder \<open>NaN\<close>, and so is the
  scaled value.
\<close>

theorem hash_is_not_the_residue_counterexample:
  "hash (- 1) = Some (- 1103502900)
   \<and> (RNG_a * (- 1) + RNG_c) mod 2 ^ 31 = 1043980748
   \<and> scale (- 1103502900) < - 1
   \<and> hash 1406932606 = Some 654583808
   \<and> (RNG_a * 1406932606 + RNG_c) mod 2 ^ 31 = 654583775
   \<and> hash (2 ^ 1000) = None
   \<and> map_option scale (hash (2 ^ 1000)) = None"
proof -
  have residues:
    "(RNG_a * (- 1) + RNG_c) mod 2 ^ 31 = 1043980748"
    "(RNG_a * 1406932606 + RNG_c) mod 2 ^ 31 = 654583775"
    by (simp_all add: RNG_a_def RNG_c_def)
  have below: "scale (- 1103502900) < - 1"
    by (simp add: scale_def RNG_m_def)
  have nan: "map_option scale (hash (2 ^ 1000)) = None"
    by (simp only: hash_overflows option.map)
  from hash_minus_one residues below hash_of_second_hash hash_overflows nan
  show ?thesis by blast
qed

theorem hash_scaled_within_unit_witness:
  "(0::int) \<le> 12345 \<and> RNG_a * 12345 < 2 ^ 1024 - 2 ^ 970 \<and> RNG_a * 12345 + RNG_c < 2 ^ 53
   \<and> (\<exists>h. hash 12345 = Some h \<and> - 1 \<le> scale h \<and> scale h \<le> 1
          \<and> h = (RNG_a * 12345 + RNG_c) mod 2 ^ 31)"
proof -
  have p: "(0::int) \<le> 12345" by simp
  have finite: "RNG_a * 12345 < 2 ^ 1024 - 2 ^ 970" by (simp add: RNG_a_def)
  have small: "RNG_a * 12345 + RNG_c < 2 ^ 53" by (simp add: RNG_a_def RNG_c_def)
  from hash_scaled_within_unit [OF p finite] p finite small show ?thesis by blast
qed

lemma hash_rounds: "hash (2 ^ 53) = Some 0 \<and> (RNG_a * 2 ^ 53 + RNG_c) mod 2 ^ 31 = 12345"
  by code_simp

lemma nearest_ties:
  "nearest (2 ^ 53 + 1) = 2 ^ 53 \<and> nearest (2 ^ 53 + 3) = 2 ^ 53 + 4"
  by code_simp

text \<open>
  The program seeds the generator with 0, and every value that \<open>hash\<close> returns for such a
  seed is below \<open>2^31\<close>: no value of the stream is \<open>NaN\<close> or outside \<open>[-1, 1]\<close>.
\<close>

lemma scan_hash_range:
  assumes "0 \<le> seed" and "RNG_a * seed < 2 ^ 1024 - 2 ^ 970"
  shows "\<forall>v \<in> set (scan (\<lambda>acc _. Option.bind acc hash) (Some seed) source).
           \<exists>h. v = Some h \<and> 0 \<le> h \<and> h < RNG_m"
  using assms
proof (induction source arbitrary: seed)
  case Nil
  show ?case by simp
next
  case (Cons x xs)
  from hash_range [OF Cons.prems] obtain h where h: "hash seed = Some h" "0 \<le> h" "h < RNG_m"
    by blast
  from h(2,3) have "RNG_a * h < 2 ^ 62" by (simp add: RNG_a_def RNG_m_def)
  then have "RNG_a * h < 2 ^ 1024 - 2 ^ 970" by simp
  from Cons.IH [OF h(2) this] h show ?case by simp
qed

lemma createRngStream_range:
  assumes "0 \<le> seed" and "RNG_a * seed < 2 ^ 1024 - 2 ^ 970"
  shows "\<forall>v \<in> set (createRngStream source seed). \<exists>r. v = Some r \<and> - 1 \<le> r \<and> r \<le> 1"
proof
  fix v assume "v \<in> set (createRngStream source seed)"
  then obtain w where w: "w \<in> set (scan (\<lambda>acc _. Option.bind acc hash) (Some seed) source)"
    and v: "v = map_option scale w"
    by (auto simp add: createRngStream_def)
  from scan_hash_range [OF assms, of source] w obtain h where "w = Some h" "0 \<le> h" "h < RNG_m"
    by blast
  with v scale_range [of h] show "\<exists>r. v = Some r \<and> - 1 \<le> r \<and> r \<le> 1" by simp
qed

section \<open>The note stream of a chart\<close>

lemma string_of_nat_digits: "set (string_of_nat n) \<subseteq> set ''0123456789''"
proof (induction n rule: string_of_nat.induct)
  case (1 n)
  have digit: "''0123456789'' ! k \<in> set ''0123456789''" if "k < 10" for k
    using that by (intro nth_mem) simp
  show ?case
  proof (cases "n < 10")
    case True
    with digit [of n] show ?thesis by (subst string_of_nat.simps) simp
  next
    case False
    with 1 have "set (string_of_nat (n div 10)) \<subseteq> set ''0123456789''" by simp
    moreover have "''0123456789'' ! (n mod 10) \<in> set ''0123456789''"
      by (rule digit) simp
    ultimately show ?thesis using False by (subst string_of_nat.simps) simp
  qed
qed

lemma string_of_nat_not_sentinel: "string_of_nat n \<noteq> ''gameEndNote''"
proof
  assume "string_of_nat n = ''gameEndNote''"
  then have "CHR ''g'' \<in> set (string_of_nat n)" by simp
  with string_of_nat_digits [of n] show False by auto
qed

lemma chartNotes_ids: "n \<in> set (chartNotes parseLine csv) \<Longrightarrow> id_n n \<noteq> ''gameEndNote''"
  by (auto simp add: chartNotes_def csvLineToNote_def string_of_nat_not_sentinel)

lemma fold_max_ge: "b \<le> fold max xs b" for b :: real
  by (induction xs arbitrary: b) (auto intro: order_trans [OF max.cobounded2])

lemma fold_max_upper: "x \<in> set xs \<Longrightarrow> x \<le> fold max xs b" for b :: real
proof (induction xs arbitrary: b)
  case Nil
  then show ?case by simp
next
  case (Cons a xs)
  show ?case
  proof (cases "x = a")
    case True
    have "a \<le> max a b" by simp
    also have "\<dots> \<le> fold max xs (max a b)" by (rule fold_max_ge)
    finally show ?thesis using True by simp
  next
    case False
    with Cons show ?thesis by simp
  qed
qed

lemma completion_upper: "e \<in> set ob \<Longrightarrow> fst e \<le> completion ob"
  unfolding completion_def by (rule fold_max_upper) simp

lemma completion_nonneg: "0 \<le> completion ob"
  unfolding completion_def by (rule fold_max_ge)

lemma timed_eq: "timed ns = sort_key fst (map (\<lambda>n. (max 0 (calculateNoteDelay n), n)) ns)"
proof -
  have "concat (map (\<lambda>n. delayed (calculateNoteDelay n) n) ns)
        = map (\<lambda>n. (max 0 (calculateNoteDelay n), n)) ns"
    by (induction ns) (simp_all add: delayed_def)
  then show ?thesis by (simp add: timed_def mergeAll_def)
qed

lemma image_mset_timed: "image_mset snd (mset (timed ns)) = mset ns"
proof -
  have "image_mset snd (mset (timed ns))
        = image_mset snd (mset (map (\<lambda>n. (max 0 (calculateNoteDelay n), n)) ns))"
    by (simp add: timed_eq)
  also have "\<dots> = mset ns"
    by (simp add: image_mset.compositionality comp_def)
  finally show ?thesis .
qed

lemma mset_timed: "mset (map snd (timed ns)) = mset ns"
  using image_mset_timed [of ns] by simp

lemma sorted_timed: "sorted (map fst (timed ns))"
  by (simp add: timed_eq sorted_sort_key)

lemma parseCSV_eq:
  "parseCSV parseLine csv
   = timed (chartNotes parseLine csv)
     @ [(completion (timed (chartNotes parseLine csv)) + (NOTE_FALL_TIME + 2000), gameEndNote)]"
  by (simp add: parseCSV_def concat_obs_def createGameEndNote_def delayed_def
      NOTE_FALL_TIME_def Let_def)

lemma sorted_parseCSV: "sorted (map fst (parseCSV parseLine csv))"
proof -
  let ?ob = "timed (chartNotes parseLine csv)"
  have "\<forall>t \<in> set (map fst ?ob). t \<le> completion ?ob + (NOTE_FALL_TIME + 2000)"
    using completion_upper [of _ ?ob] by (fastforce simp add: NOTE_FALL_TIME_def)
  then show ?thesis
    by (simp add: parseCSV_eq sorted_append sorted_timed)
qed

text \<open>
  C7, amended. The note stream of a chart is not empty and ends with the sentinel, whose
  id is \<open>gameEndNote\<close>; before it come the notes of the chart, each once; no other note of
  the stream has that id; emission times never decrease along the stream, so the sentinel
  is also the last in time; it is the last note that reaches the reducer as an \<open>AddNotes\<close>
  action; and \<open>AddNotes.apply\<close> on it sets \<open>gameEnd\<close> to true and changes no other field.
\<close>

theorem chart_ends_with_gameEndNote:
  "parseCSV parseLine csv \<noteq> []
   \<and> last (map snd (parseCSV parseLine csv)) = gameEndNote
   \<and> mset (butlast (map snd (parseCSV parseLine csv))) = mset (chartNotes parseLine csv)
   \<and> id_n gameEndNote = ''gameEndNote''
   \<and> length (filter (\<lambda>n. id_n n = ''gameEndNote'') (map snd (parseCSV parseLine csv))) = 1
   \<and> sorted (map fst (parseCSV parseLine csv))
   \<and> last (map snd (userPlayableNotes (parseCSV parseLine csv))) = AddNotes gameEndNote
   \<and> AddNotes_apply gameEndNote s = s\<lparr>gameEnd := True\<rparr>"
proof (intro conjI)
  let ?chart = "chartNotes parseLine csv"
  show "parseCSV parseLine csv \<noteq> []"
    by (simp add: parseCSV_eq)
  show "last (map snd (parseCSV parseLine csv)) = gameEndNote"
    by (simp add: parseCSV_eq)
  show "mset (butlast (map snd (parseCSV parseLine csv))) = mset ?chart"
    by (simp add: parseCSV_eq butlast_append image_mset_timed)
  show "id_n gameEndNote = ''gameEndNote''"
    by (simp add: gameEndNote_def)
  have "filter (\<lambda>n. id_n n = ''gameEndNote'') (map snd (timed ?chart)) = []"
  proof -
    have "set (map snd (timed ?chart)) = set ?chart"
      using mset_timed [of ?chart] by (metis set_mset_mset)
    then show ?thesis
      using chartNotes_ids [of _ parseLine csv] by (auto simp add: filter_empty_conv)
  qed
  then show "length (filter (\<lambda>n. id_n n = ''gameEndNote'') (map snd (parseCSV parseLine csv))) = 1"
    by (simp add: parseCSV_eq gameEndNote_def)
  show "sorted (map fst (parseCSV parseLine csv))"
    by (rule sorted_parseCSV)
  show "last (map snd (userPlayableNotes (parseCSV parseLine csv))) = AddNotes gameEndNote"
    by (simp add: parseCSV_eq userPlayableNotes_def gameEndNote_def)
  show "AddNotes_apply gameEndNote s = s\<lparr>gameEnd := True\<rparr>"
    by (simp add: AddNotes_apply_def gameEndNote_def)
qed

lemma example_chartNotes: "chartNotes (\<lambda>line. example_row) example_chart = [note0]"
  by (simp add: chartNotes_def example_chart_def note0_def enumerate_eq_zip)

text \<open>
  C7, as stated, names the id \<open>end-of-game\<close>. No note of a stream has that id, and a note
  with that id does not end the game: \<open>AddNotes.apply\<close> appends it to the notes.
\<close>

theorem sentinel_id_counterexample:
  "map (id_n \<circ> snd) (parseCSV (\<lambda>line. example_row) example_chart) = [''0'', ''gameEndNote'']
   \<and> filter (\<lambda>n. id_n n = ''end-of-game'') (map snd (parseCSV (\<lambda>line. example_row) example_chart)) = []
   \<and> \<not> gameEnd (AddNotes_apply (gameEndNote\<lparr>id_n := ''end-of-game''\<rparr>) initialState)
   \<and> notes_s (AddNotes_apply (gameEndNote\<lparr>id_n := ''end-of-game''\<rparr>) initialState)
       = [gameEndNote\<lparr>id_n := ''end-of-game''\<rparr>]"
  by (simp add: parseCSV_eq example_chartNotes timed_eq note0_eq gameEndNote_def
      AddNotes_apply_def initialState_def)


end
